theory Spec2Isabelle
  imports Main "HOL-Library.Word"
begin

unbundle bit_operations_syntax

section \<open>Values that cross the wrapper\<close>

text \<open>
  The package \<^verbatim>\<open>drivechain\<close> is a thin Go layer over a statically linked native
  library.  Go's \<^verbatim>\<open>byte\<close> and C's \<^verbatim>\<open>uchar\<close> are 8-bit words, Go's \<^verbatim>\<open>uint64\<close> and C's
  \<^verbatim>\<open>ulong\<close> are 64-bit words, \<^verbatim>\<open>*big.Int\<close> is an unbounded integer (a pointer that is
  passed in is not nil).  A Go slice is a list; a \<^verbatim>\<open>[20]C.uchar\<close> array is a list whose
  length the code keeps at 20.
\<close>

type_synonym byte = "8 word"
type_synonym uint64 = "64 word"

text \<open>
  A call either returns, or returns a Go \<^verbatim>\<open>error\<close> value (\<^verbatim>\<open>errors.New\<close>), or panics.
  The two failures are kept apart: an error is handed to the caller, a panic unwinds.
\<close>

datatype failure = Error string | Panic string

text \<open>
  The structs of the package.  \<^verbatim>\<open>common.Address\<close> is 20 bytes and \<^verbatim>\<open>common.Hash\<close> is
  32 bytes in go-ethereum; addresses are byte lists here, and hashes stay abstract (a type
  variable), because only their printed form is used.
\<close>

record RawDeposit =
  address :: string
  amount :: uint64

record Deposit =
  Address :: "byte list"
  Amount :: int

record Withdrawal =
  Address :: "byte list"
  Amount :: int
  Fee :: int

text \<open>
  The structs of \<^verbatim>\<open>bindings.h\<close> that the code builds: \<^verbatim>\<open>C.Deposit\<close>, \<^verbatim>\<open>C.Withdrawal\<close> and
  \<^verbatim>\<open>C.Refund\<close>, their fields prefixed with the struct's initial.  A \<^verbatim>\<open>char *\<close> made by
  \<^verbatim>\<open>C.CString\<close> is the string it was copied from.
\<close>

record C_Deposit =
  d_address :: string
  d_amount :: uint64

record C_Withdrawal =
  w_id :: string
  w_address :: "byte list"
  w_amount :: uint64
  w_fee :: uint64

record C_Refund =
  r_id :: string

subsection \<open>Slices and indexed stores\<close>

text \<open>
  The slice expression \<^verbatim>\<open>s[lo:hi]\<close>.  Go checks \<^verbatim>\<open>lo <= hi <= cap(s)\<close>; a list has no
  spare capacity, so the bound used here is the length, which is the stricter check.
\<close>

definition slice :: "'a list \<Rightarrow> nat \<Rightarrow> nat \<Rightarrow> failure + 'a list" where
  "slice s lo hi =
     (if lo \<le> hi \<and> hi \<le> length s then Inr (take (hi - lo) (drop lo s))
      else Inl (Panic ''slice bounds out of range''))"

text \<open>
  The loop \<^verbatim>\<open>for i, x := range src { dst[i] = T(x) }\<close> between two byte containers,
  started at index \<open>i\<close>.  A store past the end of \<open>dst\<close> is Go's index panic.
\<close>

fun range_store :: "nat \<Rightarrow> byte list \<Rightarrow> byte list \<Rightarrow> failure + byte list" where
  "range_store i [] dst = Inr dst"
| "range_store i (x # xs) dst =
     (if i < length dst then range_store (Suc i) xs (dst[i := x])
      else Inl (Panic ''index out of range''))"

subsection \<open>Big-endian 64-bit integers (\<^verbatim>\<open>encoding/binary\<close>)\<close>

text \<open>
  \<^verbatim>\<open>binary.BigEndian.PutUint64(b, v)\<close> first touches \<^verbatim>\<open>b[7]\<close>, then stores
  \<^verbatim>\<open>byte(v >> 56)\<close>, ..., \<^verbatim>\<open>byte(v)\<close> into \<^verbatim>\<open>b[0]\<close>, ..., \<^verbatim>\<open>b[7]\<close>.
\<close>

definition BigEndian_PutUint64 :: "byte list \<Rightarrow> uint64 \<Rightarrow> failure + byte list" where
  "BigEndian_PutUint64 b v =
     (if length b \<le> 7 then Inl (Panic ''index out of range'')
      else Inr (b[0 := ucast (drop_bit 56 v), 1 := ucast (drop_bit 48 v),
                  2 := ucast (drop_bit 40 v), 3 := ucast (drop_bit 32 v),
                  4 := ucast (drop_bit 24 v), 5 := ucast (drop_bit 16 v),
                  6 := ucast (drop_bit 8 v), 7 := ucast v]))"

text \<open>
  \<^verbatim>\<open>binary.BigEndian.Uint64(b)\<close> touches \<^verbatim>\<open>b[7]\<close> and returns
  \<^verbatim>\<open>uint64(b[7]) | uint64(b[6])<<8 | ... | uint64(b[0])<<56\<close>.
\<close>

definition BigEndian_Uint64 :: "byte list \<Rightarrow> failure + uint64" where
  "BigEndian_Uint64 b =
     (if length b \<le> 7 then Inl (Panic ''index out of range'')
      else Inr (ucast (b ! 7) OR push_bit 8 (ucast (b ! 6)) OR push_bit 16 (ucast (b ! 5))
                OR push_bit 24 (ucast (b ! 4)) OR push_bit 32 (ucast (b ! 3))
                OR push_bit 40 (ucast (b ! 2)) OR push_bit 48 (ucast (b ! 1))
                OR push_bit 56 (ucast (b ! 0))))"

text \<open>
  The number a byte sequence denotes when it is read as an unsigned big-endian integer,
  most significant byte first.  This is the wire format's own reading, written without
  reference to the two library routines above, which are compared against it below.
\<close>

definition be_nat :: "byte list \<Rightarrow> nat" where
  "be_nat bs = foldl (\<lambda>a b. a * 256 + unat b) 0 bs"

subsection \<open>Arbitrary-precision division (\<^verbatim>\<open>math/big\<close>)\<close>

text \<open>
  \<^verbatim>\<open>z.Div(x, y)\<close> is Euclidean division: it takes the truncated quotient and remainder
  of \<^verbatim>\<open>QuoRem\<close> and moves the quotient by one when the remainder is negative, so that
  the remainder ends up in \<open>[0, |y|)\<close>.  A zero divisor panics.
\<close>

definition big_QuoRem :: "int \<Rightarrow> int \<Rightarrow> int \<times> int" where
  "big_QuoRem x y = (let q = sgn x * sgn y * (\<bar>x\<bar> div \<bar>y\<bar>) in (q, x - y * q))"

definition big_Div :: "int \<Rightarrow> int \<Rightarrow> failure + int" where
  "big_Div x y =
     (if y = 0 then Inl (Panic ''division by zero'')
      else let (q, r) = big_QuoRem x y
           in Inr (if r < 0 then (if y < 0 then q + 1 else q - 1) else q))"

section \<open>Unit conversion\<close>

text \<open>
  There are 10,000,000,000 Wei in one Satoshi.  \<^verbatim>\<open>Satoshi\<close> is a package variable
  that the package never assigns after its initialisation.
\<close>

definition Satoshi :: int where
  "Satoshi = 10000000000"

text \<open>
  The conversion from sidechain units (Wei) to mainchain units (Satoshi), as
  \<^verbatim>\<open>DecodeWithdrawal\<close> performs it: \<^verbatim>\<open>amount.Div(value, Satoshi)\<close>.
\<close>

definition toMainchainUnits :: "int \<Rightarrow> failure + int" where
  "toMainchainUnits sidechainUnits = big_Div sidechainUnits Satoshi"

text \<open>
  Modelled from the spec: the package holds no function that converts mainchain units to
  sidechain units; the specification gives it as
  \<^verbatim>\<open>toSidechainUnits(satoshi) = satoshi * 10^10\<close>, in exact integer arithmetic.
\<close>

definition toSidechainUnits :: "int \<Rightarrow> int" where
  "toSidechainUnits satoshi = satoshi * 10 ^ 10"

section \<open>Withdrawal codec\<close>

text \<open>
  \<^verbatim>\<open>GetWithdrawalData\<close> asks the native library for a new mainchain address.  The call
  is foreign: it is a parameter here, a function on the library's state that returns the
  bytes of \<^verbatim>\<open>cAddress.address\<close> together with the state after the allocation.
\<close>

definition GetWithdrawalData ::
  "('c \<Rightarrow> byte list \<times> 'c) \<Rightarrow> 'c \<Rightarrow> uint64 \<Rightarrow> (failure + byte list) \<times> 'c" where
  "GetWithdrawalData get_new_mainchain_address conn fee =
     (case BigEndian_PutUint64 (replicate 8 0) fee of
        Inl e \<Rightarrow> (Inl e, conn)
      | Inr feeBytes \<Rightarrow>
         (let (cAddress, conn') = get_new_mainchain_address conn
          in (case range_store 0 cAddress (replicate 20 0) of
                Inl e \<Rightarrow> (Inl e, conn')
              | Inr addressBytes \<Rightarrow> (Inr (feeBytes @ addressBytes), conn'))))"

definition DecodeWithdrawal :: "int \<Rightarrow> byte list \<Rightarrow> failure + Withdrawal" where
  "DecodeWithdrawal val data =
     (if length data \<noteq> 28 then Inl (Error ''wrong withdrawal data length'')
      else
       (case slice data 0 8 of
          Inl e \<Rightarrow> Inl e
        | Inr feeBytes \<Rightarrow>
           (if length feeBytes \<noteq> 8 then Inl (Panic ''off by one error'')
            else
             (case slice data 8 28 of
                Inl e \<Rightarrow> Inl e
              | Inr addressBytes \<Rightarrow>
                 (if length addressBytes \<noteq> 20 then Inl (Panic ''off by one error'')
                  else
                   (case range_store 0 addressBytes (replicate 20 0) of
                      Inl e \<Rightarrow> Inl e
                    | Inr address20 \<Rightarrow>
                       (case toMainchainUnits val of
                          Inl e \<Rightarrow> Inl e
                        | Inr amountSat \<Rightarrow>
                           (case BigEndian_Uint64 feeBytes of
                              Inl e \<Rightarrow> Inl e
                            | Inr u \<Rightarrow>
                                Inr \<lparr>Address = address20, Amount = amountSat,
                                     Fee = sint u\<rparr>))))))))"

section \<open>Deposits\<close>

text \<open>
  \<^verbatim>\<open>getDepositOutputs\<close> copies what \<^verbatim>\<open>C.get_deposit_outputs()\<close> returned, element by
  element, appending to a fresh slice.  The argument is the array the native call returned.
\<close>

definition getDepositOutputs :: "C_Deposit list \<Rightarrow> RawDeposit list" where
  "getDepositOutputs cDeposits =
     foldl (\<lambda>deposits cDeposit.
              deposits @ [\<lparr>RawDeposit.address = d_address cDeposit,
                           RawDeposit.amount = d_amount cDeposit\<rparr>])
           [] cDeposits"

text \<open>
  \<^verbatim>\<open>GetDepositOutputs\<close>: the amount goes through \<^verbatim>\<open>big.NewInt(int64(rawDeposit.amount))\<close>,
  that is, the 64 bits are read as a two's complement number.  \<^verbatim>\<open>common.HexToAddress\<close>
  belongs to go-ethereum and is a parameter.
\<close>

definition GetDepositOutputs :: "(string \<Rightarrow> byte list) \<Rightarrow> C_Deposit list \<Rightarrow> Deposit list" where
  "GetDepositOutputs HexToAddress cDeposits =
     foldl (\<lambda>deposits rawDeposit.
              deposits @ [\<lparr>Deposit.Address = HexToAddress (RawDeposit.address rawDeposit),
                           Deposit.Amount = sint (RawDeposit.amount rawDeposit)\<rparr>])
           [] (getDepositOutputs cDeposits)"

section \<open>Marshalling a block for the native library\<close>

subsection \<open>Memory from \<^verbatim>\<open>C.malloc\<close>\<close>

text \<open>
  \<^verbatim>\<open>ConnectBlock\<close> obtains a block of bytes from \<^verbatim>\<open>C.malloc\<close>, casts the pointer to
  \<^verbatim>\<open>*[1<<30 - 1]T\<close> and stores elements through that array.  Go checks an index against
  the length of the array type only; whether the element lies inside the block that
  \<^verbatim>\<open>malloc\<close> returned is not checked by anything.  The block therefore records its size
  in bytes, the stores that fell inside it, and the stores that fell outside it.
\<close>

record 'a cbuf =
  alloc_bytes :: nat
  stored :: "(nat \<times> 'a) list"
  outside :: "(nat \<times> 'a) list"

text \<open>The argument of \<^verbatim>\<open>C.malloc\<close> is a \<^verbatim>\<open>C.size_t\<close>, 64 bits wide.\<close>

definition C_malloc :: "uint64 \<Rightarrow> 'a cbuf" where
  "C_malloc n = \<lparr>alloc_bytes = unat n, stored = [], outside = []\<rparr>"

definition array_len :: nat where
  "array_len = 2 ^ 30 - 1"

text \<open>The assignment \<^verbatim>\<open>slice[i] = x\<close> for elements of \<open>elem_size\<close> bytes.\<close>

definition store :: "nat \<Rightarrow> nat \<Rightarrow> 'a \<Rightarrow> 'a cbuf \<Rightarrow> failure + 'a cbuf" where
  "store elem_size i x buf =
     (if array_len \<le> i then Inl (Panic ''index out of range'')
      else if (i + 1) * elem_size \<le> alloc_bytes buf
           then Inr (buf\<lparr>stored := stored buf @ [(i, x)]\<rparr>)
           else Inr (buf\<lparr>outside := outside buf @ [(i, x)]\<rparr>))"

text \<open>
  The loop \<^verbatim>\<open>for i, x := range xs { slice[i] = x }\<close>, started at index \<open>i\<close>.  It returns
  the block as the loop left it and the panic that ended the loop, if one did.
\<close>

fun fill :: "nat \<Rightarrow> nat \<Rightarrow> 'a list \<Rightarrow> 'a cbuf \<Rightarrow> 'a cbuf \<times> failure option" where
  "fill elem_size i [] buf = (buf, None)"
| "fill elem_size i (x # xs) buf =
     (case store elem_size i x buf of
        Inl e \<Rightarrow> (buf, Some e)
      | Inr buf' \<Rightarrow> fill elem_size (Suc i) xs buf')"

subsection \<open>What the package takes from elsewhere\<close>

text \<open>
  The sizes of the three C structs come from \<^verbatim>\<open>bindings.h\<close>; \<^verbatim>\<open>Address.String\<close> and
  \<^verbatim>\<open>Hash.Hex\<close> come from go-ethereum's \<^verbatim>\<open>common\<close> package.  None of them is in the Go
  file, so they are parameters, collected in one record.
\<close>

record 'h extern =
  sizeof_Deposit :: nat
  sizeof_Withdrawal :: nat
  sizeof_Refund :: nat
  Address_String :: "byte list \<Rightarrow> string"
  Hash_Hex :: "'h \<Rightarrow> string"

text \<open>
  \<^verbatim>\<open>strings.ToLower\<close> on a string of ASCII characters, which is what both call sites pass
  (a printed address): each of the 26 capital letters becomes its small letter,
  everything else stays.
\<close>

definition strings_ToLower :: "string \<Rightarrow> string" where
  "strings_ToLower s =
     map (\<lambda>c. case map_of (zip ''ABCDEFGHIJKLMNOPQRSTUVWXYZ''
                                ''abcdefghijklmnopqrstuvwxyz'') c of
                Some l \<Rightarrow> l
              | None \<Rightarrow> c) s"

text \<open>
  \<^verbatim>\<open>x.Uint64()\<close> of \<^verbatim>\<open>math/big\<close> returns the low 64 bits of the magnitude of \<open>x\<close>
  (the documentation leaves the result open when \<open>x\<close> does not fit).
\<close>

definition big_Uint64 :: "int \<Rightarrow> uint64" where
  "big_Uint64 x = word_of_nat (nat \<bar>x\<bar>)"

subsection \<open>\<^verbatim>\<open>ConnectBlock\<close>\<close>

definition cDeposit_of :: "'h extern \<Rightarrow> Deposit \<Rightarrow> C_Deposit" where
  "cDeposit_of X deposit =
     \<lparr>d_address = strings_ToLower (Address_String X (Deposit.Address deposit)),
      d_amount = big_Uint64 (Deposit.Amount deposit)\<rparr>"

definition cWithdrawal_of :: "'h extern \<Rightarrow> 'h \<times> Withdrawal \<Rightarrow> C_Withdrawal" where
  "cWithdrawal_of X entry =
     (case entry of (id', w) \<Rightarrow>
        \<lparr>w_id = Hash_Hex X id', w_address = Address w,
         w_amount = big_Uint64 (Amount w), w_fee = big_Uint64 (Fee w)\<rparr>)"

definition cRefund_of :: "'h extern \<Rightarrow> 'h \<Rightarrow> C_Refund" where
  "cRefund_of X r = \<lparr>r_id = Hash_Hex X r\<rparr>"

text \<open>
  The three blocks after their loops.  The map \<open>withdrawals\<close> is given as the list of its
  entries in the order in which the \<^verbatim>\<open>range\<close> loop visits them (Go leaves that order
  open); \<^verbatim>\<open>len(withdrawals)\<close> is the length of that list.  The block for the refunds is
  requested with \<^verbatim>\<open>len(withdrawals)\<close>, as the code has it.
\<close>

definition depositsBuffer :: "'h extern \<Rightarrow> Deposit list \<Rightarrow> C_Deposit cbuf \<times> failure option" where
  "depositsBuffer X deposits =
     fill (sizeof_Deposit X) 0 (map (cDeposit_of X) deposits)
       (C_malloc (word_of_nat (length deposits) * word_of_nat (sizeof_Deposit X)))"

definition withdrawalsBuffer ::
  "'h extern \<Rightarrow> ('h \<times> Withdrawal) list \<Rightarrow> C_Withdrawal cbuf \<times> failure option" where
  "withdrawalsBuffer X withdrawals =
     fill (sizeof_Withdrawal X) 0 (map (cWithdrawal_of X) withdrawals)
       (C_malloc (word_of_nat (length withdrawals) * word_of_nat (sizeof_Withdrawal X)))"

definition refundsBuffer ::
  "'h extern \<Rightarrow> ('h \<times> Withdrawal) list \<Rightarrow> 'h list \<Rightarrow> C_Refund cbuf \<times> failure option" where
  "refundsBuffer X withdrawals refunds =
     fill (sizeof_Refund X) 0 (map (cRefund_of X) refunds)
       (C_malloc (word_of_nat (length withdrawals) * word_of_nat (sizeof_Refund X)))"

text \<open>
  What a reader finds at the elements of a block, counted from its first element: the
  elements that were stored, in index order.  The loop stores in ascending index order and
  a store inside the block is never preceded by one outside it, so the stores inside come
  first.  For an element stored outside the block this takes the memory there to be as the
  store left it.
\<close>

definition elements :: "'a cbuf \<Rightarrow> 'a list" where
  "elements buf = map snd (stored buf @ outside buf)"

text \<open>
  \<^verbatim>\<open>ConnectBlock\<close>.  \<^verbatim>\<open>C.connect_block\<close> belongs to the native library and is a
  parameter: a function on the library's state that takes the three arrays and the flag
  and returns its boolean together with the state after the call.  The \<^verbatim>\<open>log.Info\<close> line
  of the second loop has no part in the result and is left out.  A panic in a loop ends the
  call.  Nothing else does: after a store outside a block the code goes on, hands the
  native library the pointer to the first element of each block and the lengths
  \<^verbatim>\<open>len(deposits)\<close>, \<^verbatim>\<open>len(withdrawals)\<close>, \<^verbatim>\<open>len(refunds)\<close>, and returns the boolean
  of the native call.
\<close>

definition ConnectBlock ::
  "'h extern \<Rightarrow>
   ('c \<Rightarrow> C_Deposit list \<Rightarrow> C_Withdrawal list \<Rightarrow> C_Refund list \<Rightarrow> bool \<Rightarrow> bool \<times> 'c) \<Rightarrow>
   'c \<Rightarrow> Deposit list \<Rightarrow> ('h \<times> Withdrawal) list \<Rightarrow> 'h list \<Rightarrow> bool \<Rightarrow>
   failure + bool \<times> 'c" where
  "ConnectBlock X connect_block conn deposits withdrawals refunds just_checking =
     (case depositsBuffer X deposits of
        (_, Some e) \<Rightarrow> Inl e
      | (depositsSlice, None) \<Rightarrow>
         (case withdrawalsBuffer X withdrawals of
            (_, Some e) \<Rightarrow> Inl e
          | (withdrawalsSlice, None) \<Rightarrow>
             (case refundsBuffer X withdrawals refunds of
                (_, Some e) \<Rightarrow> Inl e
              | (refundsSlice, None) \<Rightarrow>
                  Inr (connect_block conn (elements depositsSlice)
                         (elements withdrawalsSlice) (elements refundsSlice)
                         just_checking))))"

section \<open>Blind merged mining\<close>

text \<open>The slice expression \<^verbatim>\<open>s[lo:]\<close> on a string.\<close>

definition str_from :: "string \<Rightarrow> nat \<Rightarrow> failure + string" where
  "str_from s lo =
     (if lo \<le> length s then Inr (drop lo s) else Inl (Panic ''slice bounds out of range''))"

text \<open>
  \<^verbatim>\<open>verifyBmm\<close> copies its two strings, calls \<^verbatim>\<open>C.verify_bmm\<close> and frees the copies.
  The native call is a parameter, a function on the library's state.
\<close>

definition verifyBmm ::
  "('c \<Rightarrow> string \<Rightarrow> string \<Rightarrow> bool \<times> 'c) \<Rightarrow> 'c \<Rightarrow> string \<Rightarrow> string \<Rightarrow> bool \<times> 'c" where
  "verifyBmm verify_bmm conn mainBlockHash criticalHash =
     verify_bmm conn mainBlockHash criticalHash"

text \<open>
  \<^verbatim>\<open>VerifyBmm\<close> prints both hashes, cuts the first two characters off each print and
  calls \<^verbatim>\<open>verifyBmm\<close>.  \<^verbatim>\<open>Hash.Hex\<close> belongs to go-ethereum and is a parameter.
\<close>

definition VerifyBmm ::
  "('h \<Rightarrow> string) \<Rightarrow> ('c \<Rightarrow> string \<Rightarrow> string \<Rightarrow> bool \<times> 'c) \<Rightarrow> 'c \<Rightarrow> 'h \<Rightarrow> 'h \<Rightarrow>
   (failure + bool) \<times> 'c" where
  "VerifyBmm Hex verify_bmm conn mainBlockHash criticalHash =
     (case str_from (Hex mainBlockHash) 2 of
        Inl e \<Rightarrow> (Inl e, conn)
      | Inr m \<Rightarrow>
         (case str_from (Hex criticalHash) 2 of
            Inl e \<Rightarrow> (Inl e, conn)
          | Inr c \<Rightarrow>
             (let (result, conn') = verifyBmm verify_bmm conn m c
              in (Inr result, conn'))))"

section \<open>The treasury account\<close>

definition THIS_SIDECHAIN :: nat where
  "THIS_SIDECHAIN = 1"

definition TREASURY_PRIVATE_KEY :: string where
  "TREASURY_PRIVATE_KEY = ''deadbeefdeadbeefdeadbeefdeadbeefdeadbeefdeadbeefdeadbeefdeadbeef''"

definition TREASURY_ACCOUNT :: string where
  "TREASURY_ACCOUNT = ''0xc96aaa54e2d44c299564da76e1cd3184a2386b8d''"

text \<open>
  \<^verbatim>\<open>Init\<close>.  Key parsing, the public key of a private key, the address of a public key
  and its print belong to go-ethereum's \<^verbatim>\<open>crypto\<close> and \<^verbatim>\<open>common\<close> packages, and
  \<^verbatim>\<open>C.init\<close> to the native library; all are parameters.  The second \<^verbatim>\<open>Sprintf\<close> has
  two verbs and one argument, so its message ends in Go's marker for a missing argument.
\<close>

definition Init ::
  "(string \<Rightarrow> string + 'k) \<Rightarrow> ('k \<Rightarrow> 'p) \<Rightarrow> ('p \<Rightarrow> byte list) \<Rightarrow> (byte list \<Rightarrow> string) \<Rightarrow>
   (string \<Rightarrow> nat \<Rightarrow> string \<Rightarrow> string \<Rightarrow> 'c) \<Rightarrow> string \<Rightarrow> string \<Rightarrow> string \<Rightarrow> failure + 'c" where
  "Init HexToECDSA Public PubkeyToAddress Address_Hex c_init dbPath rpcUser rpcPassword =
     (case HexToECDSA TREASURY_PRIVATE_KEY of
        Inl err \<Rightarrow> Inl (Panic (''can't get treasury private key: '' @ err))
      | Inr privKey \<Rightarrow>
         (let addr = PubkeyToAddress (Public privKey);
              actualTreasuryAccount = strings_ToLower (Address_Hex addr)
          in if TREASURY_ACCOUNT \<noteq> actualTreasuryAccount
             then Inl (Panic (''treasury account: '' @ TREASURY_ACCOUNT
                              @ '' != actual treasury account: %!s(MISSING)''))
             else Inr (c_init dbPath THIS_SIDECHAIN rpcUser rpcPassword)))"

section \<open>Properties\<close>

subsection \<open>Stores, division\<close>

lemma range_store_fits:
  "i + length src \<le> length dst \<Longrightarrow>
   range_store i src dst = Inr (take i dst @ src @ drop (i + length src) dst)"
proof (induction src arbitrary: i dst)
  case Nil
  then show ?case by simp
next
  case (Cons x xs)
  then have i: "i < length dst" by simp
  have "range_store (Suc i) xs (dst[i := x])
        = Inr (take (Suc i) (dst[i := x]) @ xs @ drop (Suc i + length xs) (dst[i := x]))"
    using Cons.prems by (intro Cons.IH) simp
  moreover have "take (Suc i) (dst[i := x]) = take i dst @ [x]"
    using i by (simp add: take_Suc_conv_app_nth)
  ultimately show ?case using i by simp
qed

lemma range_store_overflow:
  "length dst < i + length src \<Longrightarrow> i \<le> length dst \<Longrightarrow>
   range_store i src dst = Inl (Panic ''index out of range'')"
proof (induction src arbitrary: i dst)
  case Nil
  then show ?case by simp
next
  case (Cons x xs)
  show ?case
  proof (cases "i < length dst")
    case True
    then show ?thesis using Cons.prems Cons.IH [of "dst[i := x]" "Suc i"] by simp
  next
    case False
    then show ?thesis by simp
  qed
qed

lemma range_store_array20:
  "length src = 20 \<Longrightarrow> range_store 0 src (replicate 20 0) = Inr src"
  using range_store_fits [of 0 src "replicate 20 0"] by simp

lemma big_Div_pos:
  assumes "0 < y"
  shows "big_Div x y = Inr (x div y)"
proof (cases "0 \<le> x")
  case True
  have "x - y * (x div y) = x mod y"
    by (simp add: minus_mult_div_eq_mod)
  moreover have "0 \<le> x mod y" using assms by simp
  ultimately have "\<not> x - y * (x div y) < 0" by simp
  then show ?thesis using assms True
    by (simp add: big_Div_def big_QuoRem_def Let_def sgn_if)
next
  case False
  then have x: "x < 0" by simp
  have d: "x div y = (if (- x) mod y = 0 then - ((- x) div y) else - ((- x) div y) - 1)"
    using zdiv_zminus1_eq_if [of y "- x"] assms by simp
  have r: "x - y * (- ((- x) div y)) = - ((- x) mod y)"
    by (simp add: algebra_simps minus_mult_div_eq_mod [symmetric])
  have m: "0 < (- x) mod y \<or> (- x) mod y = 0"
    using pos_mod_sign [of y "- x"] assms by linarith
  show ?thesis
  proof (cases "(- x) mod y = 0")
    case True
    then show ?thesis using assms x d r
      by (simp add: big_Div_def big_QuoRem_def Let_def sgn_if)
  next
    case False
    then have "0 < (- x) mod y" using m by simp
    then show ?thesis using assms x d r False
      by (simp add: big_Div_def big_QuoRem_def Let_def sgn_if)
  qed
qed

lemma toMainchainUnits_floor: "toMainchainUnits v = Inr (v div 10 ^ 10)"
  by (simp add: toMainchainUnits_def Satoshi_def big_Div_pos)

subsection \<open>Big-endian bytes\<close>

lemma list8_update:
  "length (b :: 'a list) = 8 \<Longrightarrow>
   b[0 := x0, 1 := x1, 2 := x2, 3 := x3, 4 := x4, 5 := x5, 6 := x6, 7 := x7]
   = [x0, x1, x2, x3, x4, x5, x6, x7]"
  by (rule nth_equalityI) (auto simp: nth_list_update less_Suc_eq numeral_eq_Suc)

lemma PutUint64_replicate:
  "BigEndian_PutUint64 (replicate 8 0) v =
     Inr [ucast (drop_bit 56 v), ucast (drop_bit 48 v), ucast (drop_bit 40 v),
          ucast (drop_bit 32 v), ucast (drop_bit 24 v), ucast (drop_bit 16 v),
          ucast (drop_bit 8 v), ucast v]"
  unfolding BigEndian_PutUint64_def
  using list8_update [of "replicate 8 (0::byte)"] by simp

lemma unat_byte_less: "unat (b::byte) < 256"
  using unsigned_less [of b] by simp

lemma unat_ucast_byte: "unat (ucast (b::byte) :: uint64) = unat b"
  using unat_byte_less [of b] by (simp add: unsigned_ucast_eq take_bit_eq_mod)

lemma horner_step:
  fixes h :: uint64 and b :: byte
  assumes "unat h < 2 ^ 56"
  shows "unat (push_bit 8 h OR ucast b) = unat h * 256 + unat b"
proof -
  have disj: "push_bit 8 h AND (ucast b :: uint64) = 0"
    by (rule bit_eqI) (auto simp: bit_simps dest: bit_imp_le_length)
  have "push_bit 8 h OR (ucast b :: uint64) = push_bit 8 h + ucast b"
    using disj by (simp add: disjunctive_add_eq_or)
  moreover have "unat (push_bit 8 h) = unat h * 256"
    using assms by (simp add: push_bit_eq_mult unat_word_ariths)
  ultimately show ?thesis using assms unat_byte_less [of b]
    by (simp add: unat_word_ariths unat_ucast_byte)
qed

lemma flat_horner:
  fixes b0 b1 b2 b3 b4 b5 b6 b7 :: byte
  shows "(ucast b7 OR push_bit 8 (ucast b6) OR push_bit 16 (ucast b5)
            OR push_bit 24 (ucast b4) OR push_bit 32 (ucast b3)
            OR push_bit 40 (ucast b2) OR push_bit 48 (ucast b1)
            OR push_bit 56 (ucast b0) :: uint64)
         = push_bit 8 (push_bit 8 (push_bit 8 (push_bit 8 (push_bit 8 (push_bit 8 (push_bit 8
             (ucast b0) OR ucast b1) OR ucast b2) OR ucast b3) OR ucast b4) OR ucast b5)
             OR ucast b6) OR ucast b7"
  by (simp add: push_bit_or push_bit_push_bit ac_simps)

lemma unat_be8:
  fixes b0 b1 b2 b3 b4 b5 b6 b7 :: byte
  shows "unat (ucast b7 OR push_bit 8 (ucast b6) OR push_bit 16 (ucast b5)
                OR push_bit 24 (ucast b4) OR push_bit 32 (ucast b3)
                OR push_bit 40 (ucast b2) OR push_bit 48 (ucast b1)
                OR push_bit 56 (ucast b0) :: uint64) = be_nat [b0, b1, b2, b3, b4, b5, b6, b7]"
proof -
  define h0 :: uint64 where "h0 = ucast b0"
  define h1 :: uint64 where "h1 = push_bit 8 h0 OR ucast b1"
  define h2 :: uint64 where "h2 = push_bit 8 h1 OR ucast b2"
  define h3 :: uint64 where "h3 = push_bit 8 h2 OR ucast b3"
  define h4 :: uint64 where "h4 = push_bit 8 h3 OR ucast b4"
  define h5 :: uint64 where "h5 = push_bit 8 h4 OR ucast b5"
  define h6 :: uint64 where "h6 = push_bit 8 h5 OR ucast b6"
  define h7 :: uint64 where "h7 = push_bit 8 h6 OR ucast b7"
  note bs = unat_byte_less [of b0] unat_byte_less [of b1] unat_byte_less [of b2]
    unat_byte_less [of b3] unat_byte_less [of b4] unat_byte_less [of b5]
    unat_byte_less [of b6] unat_byte_less [of b7]
  have u0: "unat h0 = unat b0" by (simp add: h0_def unat_ucast_byte)
  have u1: "unat h1 = unat h0 * 256 + unat b1"
    unfolding h1_def using u0 bs by (intro horner_step) simp
  have u2: "unat h2 = unat h1 * 256 + unat b2"
    unfolding h2_def using u0 u1 bs by (intro horner_step) simp
  have u3: "unat h3 = unat h2 * 256 + unat b3"
    unfolding h3_def using u0 u1 u2 bs by (intro horner_step) simp
  have u4: "unat h4 = unat h3 * 256 + unat b4"
    unfolding h4_def using u0 u1 u2 u3 bs by (intro horner_step) simp
  have u5: "unat h5 = unat h4 * 256 + unat b5"
    unfolding h5_def using u0 u1 u2 u3 u4 bs by (intro horner_step) simp
  have u6: "unat h6 = unat h5 * 256 + unat b6"
    unfolding h6_def using u0 u1 u2 u3 u4 u5 bs by (intro horner_step) simp
  have u7: "unat h7 = unat h6 * 256 + unat b7"
    unfolding h7_def using u0 u1 u2 u3 u4 u5 u6 bs by (intro horner_step) simp
  have "unat h7 = be_nat [b0, b1, b2, b3, b4, b5, b6, b7]"
    by (simp only: u7 u6 u5 u4 u3 u2 u1 u0 be_nat_def foldl.simps mult_zero_left add_0)
  then show ?thesis
    by (simp only: flat_horner h7_def h6_def h5_def h4_def h3_def h2_def h1_def h0_def)
qed

lemma list8_nth:
  "length (b :: 'a list) = 8 \<Longrightarrow> b = [b ! 0, b ! 1, b ! 2, b ! 3, b ! 4, b ! 5, b ! 6, b ! 7]"
  by (rule nth_equalityI) (auto simp: less_Suc_eq numeral_eq_Suc)

lemma Uint64_be_nat:
  assumes "length b = 8"
  shows "\<exists>u. BigEndian_Uint64 b = Inr u \<and> unat u = be_nat b"
proof -
  have "be_nat b = be_nat [b ! 0, b ! 1, b ! 2, b ! 3, b ! 4, b ! 5, b ! 6, b ! 7]"
    using list8_nth [OF assms] by simp
  then show ?thesis
    using assms by (simp add: BigEndian_Uint64_def unat_be8)
qed

lemma be_nat_less:
  assumes "length b = 8"
  shows "be_nat b < 2 ^ 64"
proof -
  obtain u :: uint64 where "unat u = be_nat b"
    using Uint64_be_nat [OF assms] by blast
  moreover have "unat u < 2 ^ 64" using unsigned_less [of u] by simp
  ultimately show ?thesis by simp
qed

lemma unat_byte_of: "unat (ucast (v::uint64) :: byte) = unat v mod 256"
proof -
  have "unat (ucast v :: byte) = take_bit 8 (unat v)"
    by (simp add: unsigned_ucast_eq)
  then show ?thesis by (simp add: take_bit_eq_mod)
qed

lemma unat_drop_nat: "unat (drop_bit k (v::uint64)) = unat v div 2 ^ k"
proof -
  have "unat (drop_bit k v) = drop_bit k (unat v)" by (rule unat_drop_bit_eq)
  then show ?thesis by (simp only: drop_bit_eq_div)
qed

lemma digit_step: "n div 2 ^ (k + 8) * 256 + n div 2 ^ k mod 256 = n div 2 ^ k" for n :: nat
proof -
  have "n div 2 ^ (k + 8) = n div 2 ^ k div 256"
    by (simp add: power_add div_mult2_eq)
  then show ?thesis by simp
qed

lemma digits8:
  fixes n :: nat
  assumes "n < 2 ^ 64"
  shows "(((((((n div 2 ^ 56 mod 256) * 256 + n div 2 ^ 48 mod 256) * 256
            + n div 2 ^ 40 mod 256) * 256 + n div 2 ^ 32 mod 256) * 256
            + n div 2 ^ 24 mod 256) * 256 + n div 2 ^ 16 mod 256) * 256
            + n div 2 ^ 8 mod 256) * 256 + n mod 256 = n"
proof -
  have "n div 2 ^ 56 < 256" using assms by (simp add: less_mult_imp_div_less)
  then have e7: "n div 2 ^ 56 mod 256 = n div 2 ^ 56" by simp
  have s48: "n div 2 ^ 56 * 256 + n div 2 ^ 48 mod 256 = n div 2 ^ 48"
    using digit_step [of n 48] by simp
  have s40: "n div 2 ^ 48 * 256 + n div 2 ^ 40 mod 256 = n div 2 ^ 40"
    using digit_step [of n 40] by simp
  have s32: "n div 2 ^ 40 * 256 + n div 2 ^ 32 mod 256 = n div 2 ^ 32"
    using digit_step [of n 32] by simp
  have s24: "n div 2 ^ 32 * 256 + n div 2 ^ 24 mod 256 = n div 2 ^ 24"
    using digit_step [of n 24] by simp
  have s16: "n div 2 ^ 24 * 256 + n div 2 ^ 16 mod 256 = n div 2 ^ 16"
    using digit_step [of n 16] by simp
  have s8: "n div 2 ^ 16 * 256 + n div 2 ^ 8 mod 256 = n div 2 ^ 8"
    using digit_step [of n 8] by simp
  have s0: "n div 2 ^ 8 * 256 + n mod 256 = n"
    by simp
  show ?thesis
    by (simp only: e7 s48 s40 s32 s24 s16 s8 s0)
qed

lemma be_nat_bytes:
  "be_nat [ucast (drop_bit 56 v), ucast (drop_bit 48 v), ucast (drop_bit 40 v),
           ucast (drop_bit 32 v), ucast (drop_bit 24 v), ucast (drop_bit 16 v),
           ucast (drop_bit 8 v), ucast (v::uint64)] = unat v"
proof -
  have "unat v < 2 ^ 64" using unsigned_less [of v] by simp
  from digits8 [OF this] show ?thesis
    by (simp only: be_nat_def foldl.simps unat_byte_of unat_drop_nat mult_zero_left add_0)
qed

lemma PutUint64_be_nat:
  "\<exists>bs. BigEndian_PutUint64 (replicate 8 0) v = Inr bs \<and> length bs = 8 \<and> be_nat bs = unat v"
proof -
  let ?bs = "[ucast (drop_bit 56 v), ucast (drop_bit 48 v), ucast (drop_bit 40 v),
              ucast (drop_bit 32 v), ucast (drop_bit 24 v), ucast (drop_bit 16 v),
              ucast (drop_bit 8 v), ucast v] :: byte list"
  have "BigEndian_PutUint64 (replicate 8 0) v = Inr ?bs" by (rule PutUint64_replicate)
  moreover have "be_nat ?bs = unat v" by (rule be_nat_bytes)
  moreover have "length ?bs = 8" by simp
  ultimately show ?thesis by blast
qed

lemma Uint64_PutUint64:
  assumes "BigEndian_PutUint64 (replicate 8 0) v = Inr bs"
  shows "BigEndian_Uint64 bs = Inr v"
proof -
  from PutUint64_be_nat [of v] assms have bs: "length bs = 8" "be_nat bs = unat v"
    by auto
  from Uint64_be_nat [OF bs(1)] obtain u where u: "BigEndian_Uint64 bs = Inr u" "unat u = be_nat bs"
    by blast
  then have "unat u = unat v" using bs by simp
  then have "u = v" by (rule word_unat_eq_iff [THEN iffD2])
  then show ?thesis using u by simp
qed

lemma sint_uint64_int:
  "sint (u::uint64) = (if uint u < 2 ^ 63 then uint u else uint u - 2 ^ 64)"
proof -
  have b: "uint u < 2 ^ 64" using uint_lt2p [of u] by simp
  have n: "0 \<le> uint u" by simp
  have "sint u = signed_take_bit 63 (uint u)"
    by (simp add: sint_uint)
  also have "\<dots> = take_bit 64 (uint u + 2 ^ 63) - 2 ^ 63"
    by (simp add: signed_take_bit_eq_take_bit_shift)
  also have "\<dots> = (uint u + 2 ^ 63) mod 2 ^ 64 - 2 ^ 63"
    by (simp add: take_bit_eq_mod)
  also have "\<dots> = (if uint u < 2 ^ 63 then uint u else uint u - 2 ^ 64)"
  proof (cases "uint u < 2 ^ 63")
    case True
    then have "(uint u + 2 ^ 63) mod 2 ^ 64 = uint u + 2 ^ 63"
      using n by (intro mod_pos_pos_trivial) simp_all
    then show ?thesis using True by simp
  next
    case False
    have "uint u + 2 ^ 63 = (uint u - 2 ^ 63) + 2 ^ 64" by simp
    then have "(uint u + 2 ^ 63) mod 2 ^ 64 = (uint u - 2 ^ 63) mod 2 ^ 64"
      by (simp only: mod_add_self2)
    also have "\<dots> = uint u - 2 ^ 63"
      using False b by (intro mod_pos_pos_trivial) simp_all
    finally show ?thesis using False by simp
  qed
  finally show ?thesis .
qed

lemma sint_uint64:
  "sint (u::uint64) = (if unat u < 2 ^ 63 then int (unat u) else int (unat u) - 2 ^ 64)"
proof -
  have "uint u = int (unat u)" by (rule uint_nat)
  then show ?thesis
    by (simp only: sint_uint64_int [of u] of_nat_less_numeral_power_cancel_iff)
qed

subsection \<open>Decoding\<close>

lemma slice_fee: "length data = 28 \<Longrightarrow> slice data 0 8 = Inr (take 8 data)"
  by (simp add: slice_def)

lemma slice_address: "length data = 28 \<Longrightarrow> slice data 8 28 = Inr (drop 8 data)"
  by (simp add: slice_def)

lemma DecodeWithdrawal_28:
  assumes "length data = 28" and "BigEndian_Uint64 (take 8 data) = Inr u"
  shows "DecodeWithdrawal v data
         = Inr \<lparr>Address = drop 8 data, Amount = v div 10 ^ 10, Fee = sint u\<rparr>"
proof -
  have "range_store 0 (drop 8 data) (replicate 20 0) = Inr (drop 8 data)"
    using assms(1) by (intro range_store_array20) simp
  then show ?thesis
    using assms
    by (simp add: DecodeWithdrawal_def slice_fee slice_address toMainchainUnits_floor)
qed

lemma DecodeWithdrawal_fields:
  assumes "length data = 28"
  shows "\<exists>w. DecodeWithdrawal v data = Inr w \<and> Address w = drop 8 data
             \<and> Amount w = v div 10 ^ 10
             \<and> Fee w = (if be_nat (take 8 data) < 2 ^ 63 then int (be_nat (take 8 data))
                        else int (be_nat (take 8 data)) - 2 ^ 64)"
proof -
  have "length (take 8 data) = 8" using assms by simp
  from Uint64_be_nat [OF this] obtain u
    where u: "BigEndian_Uint64 (take 8 data) = Inr u" "unat u = be_nat (take 8 data)"
    by blast
  show ?thesis
    using DecodeWithdrawal_28 [OF assms u(1), of v] u(2) sint_uint64 [of u] by simp
qed

subsection \<open>Encoding\<close>

lemma GetWithdrawalData_20:
  assumes "get_new_mainchain_address conn = (cAddress, conn')" and "length cAddress = 20"
    and "BigEndian_PutUint64 (replicate 8 0) f = Inr feeBytes"
  shows "GetWithdrawalData get_new_mainchain_address conn f = (Inr (feeBytes @ cAddress), conn')"
  using assms by (simp add: GetWithdrawalData_def range_store_array20)

lemma GetWithdrawalData_long_address:
  assumes "get_new_mainchain_address conn = (cAddress, conn')" and "20 < length cAddress"
  shows "GetWithdrawalData get_new_mainchain_address conn f
         = (Inl (Panic ''index out of range''), conn')"
  using assms range_store_overflow [of "replicate 20 0" 0 cAddress]
  by (simp add: GetWithdrawalData_def PutUint64_replicate)

lemma encode_then_decode:
  assumes "get_new_mainchain_address conn = (cAddress, conn')" and "length cAddress = 20"
  shows "\<exists>data. GetWithdrawalData get_new_mainchain_address conn f = (Inr data, conn')
           \<and> DecodeWithdrawal v data
               = Inr \<lparr>Address = cAddress, Amount = v div 10 ^ 10, Fee = sint f\<rparr>"
proof -
  obtain feeBytes where fb: "BigEndian_PutUint64 (replicate 8 0) f = Inr feeBytes"
    "length feeBytes = 8"
    using PutUint64_be_nat [of f] by blast
  have u: "BigEndian_Uint64 feeBytes = Inr f" using fb(1) by (rule Uint64_PutUint64)
  have "DecodeWithdrawal v (feeBytes @ cAddress)
        = Inr \<lparr>Address = drop 8 (feeBytes @ cAddress), Amount = v div 10 ^ 10, Fee = sint f\<rparr>"
    using fb(2) assms(2) u by (intro DecodeWithdrawal_28) simp_all
  then show ?thesis
    using GetWithdrawalData_20 [of get_new_mainchain_address conn cAddress conn' f feeBytes]
      assms fb by simp
qed

text \<open>
  So the address always survives the round trip, and the fee survives it exactly when
  its top bit is clear.
\<close>

lemma encode_then_decode_small_fee:
  assumes "get_new_mainchain_address conn = (cAddress, conn')" and "length cAddress = 20"
    and "unat f < 2 ^ 63"
  shows "\<exists>data. GetWithdrawalData get_new_mainchain_address conn f = (Inr data, conn')
           \<and> DecodeWithdrawal v data
               = Inr \<lparr>Address = cAddress, Amount = v div 10 ^ 10, Fee = int (unat f)\<rparr>"
  using encode_then_decode [of get_new_mainchain_address conn cAddress conn' f v]
    assms sint_uint64 [of f] by simp

subsection \<open>Deposits\<close>

lemma foldl_snoc_map: "foldl (\<lambda>acc x. acc @ [g x]) a xs = a @ map g xs"
  by (induction xs arbitrary: a) simp_all

lemma GetDepositOutputs_map:
  "GetDepositOutputs HexToAddress cDeposits
   = map (\<lambda>c. \<lparr>Deposit.Address = HexToAddress (d_address c),
                Deposit.Amount = sint (d_amount c)\<rparr>) cDeposits"
  by (simp add: GetDepositOutputs_def getDepositOutputs_def foldl_snoc_map comp_def)

subsection \<open>The claims about the codec, the units and the deposits\<close>

lemma getDepositOutputs_map:
  "getDepositOutputs cDeposits
   = map (\<lambda>c. \<lparr>RawDeposit.address = d_address c, RawDeposit.amount = d_amount c\<rparr>) cDeposits"
  by (simp add: getDepositOutputs_def foldl_snoc_map)

lemma Uint64_top_bit: "BigEndian_Uint64 [0x80, 0, 0, 0, 0, 0, 0, 0] = Inr 0x8000000000000000"
  by (simp add: BigEndian_Uint64_def)

lemma PutUint64_top_bit:
  "BigEndian_PutUint64 (replicate 8 0) 0x8000000000000000 = Inr [0x80, 0, 0, 0, 0, 0, 0, 0]"
  by (simp add: PutUint64_replicate drop_bit_eq_div)

text \<open>
  Claim C1: for every fee \<open>f\<close> in \<open>[0, 2^64)\<close>, decoding what \<^verbatim>\<open>GetWithdrawalData\<close>
  produced for \<open>f\<close> succeeds with \<open>Fee = f\<close>, and the 20 address bytes come back
  unchanged.  The address does come back (\<open>encode_then_decode\<close>), and so does every fee
  below \<open>2^63\<close> (\<open>encode_then_decode_small_fee\<close>).  At the fee \<open>2^63\<close> the code returns
  \<open>Fee = - 2^63\<close>: \<^verbatim>\<open>DecodeWithdrawal\<close> casts the unsigned 64-bit value to \<^verbatim>\<open>int64\<close>
  before it makes the big integer.
\<close>

theorem fee_round_trip_top_bit:
  "GetWithdrawalData (\<lambda>c::unit. (replicate 20 0x11, c)) () 0x8000000000000000
     = (Inr ([0x80, 0, 0, 0, 0, 0, 0, 0] @ replicate 20 0x11), ())
   \<and> DecodeWithdrawal 0 ([0x80, 0, 0, 0, 0, 0, 0, 0] @ replicate 20 0x11)
     = Inr \<lparr>Address = replicate 20 0x11, Amount = 0, Fee = - 9223372036854775808\<rparr>
   \<and> unat (0x8000000000000000 :: uint64) = 9223372036854775808"
proof -
  have "GetWithdrawalData (\<lambda>c::unit. (replicate 20 0x11, c)) () 0x8000000000000000
          = (Inr ([0x80, 0, 0, 0, 0, 0, 0, 0] @ replicate 20 0x11), ())"
    by (simp add: GetWithdrawalData_def PutUint64_top_bit range_store_array20)
  moreover have "DecodeWithdrawal 0 ([0x80, 0, 0, 0, 0, 0, 0, 0] @ replicate 20 0x11)
     = Inr \<lparr>Address = replicate 20 0x11, Amount = 0, Fee = - 9223372036854775808\<rparr>"
    using DecodeWithdrawal_28 [of "[0x80, 0, 0, 0, 0, 0, 0, 0] @ replicate 20 0x11"
        "0x8000000000000000" 0]
    by (simp add: Uint64_top_bit)
  ultimately show ?thesis by simp
qed

text \<open>
  Claim C2: unit conversion is an exact floor inverse.  For every non-negative integer
  \<open>s\<close>, converting \<open>s\<close> to sidechain units and back gives \<open>s\<close>, and so does converting
  \<open>toSidechainUnits s + r\<close> back for every remainder \<open>0 \<le> r < 10^10\<close>.
\<close>

theorem unit_conversion_floor_inverse:
  assumes "0 \<le> s" and "0 \<le> r" and "r < 10 ^ 10"
  shows "toMainchainUnits (toSidechainUnits s) = Inr s
       \<and> toMainchainUnits (toSidechainUnits s + r) = Inr s"
proof -
  have "(s * 10 ^ 10 + r) div 10 ^ 10 = s"
    using assms(2,3) by simp
  then show ?thesis
    by (simp add: toMainchainUnits_floor toSidechainUnits_def)
qed

theorem unit_conversion_floor_inverse_witness:
  "(0::int) \<le> 12345 \<and> (0::int) \<le> 9999999999 \<and> (9999999999::int) < 10 ^ 10
   \<and> toMainchainUnits (toSidechainUnits 12345) = Inr 12345
   \<and> toMainchainUnits (toSidechainUnits 12345 + 9999999999) = Inr 12345"
  using unit_conversion_floor_inverse [of 12345 9999999999] by simp

text \<open>
  Claim C3: for every value and every byte slice whose length is not exactly 28,
  \<^verbatim>\<open>DecodeWithdrawal\<close> returns the error for malformed withdrawal data and does not
  panic; for a slice of length 28 it returns a withdrawal, so neither of the two
  \<^verbatim>\<open>panic("off by one error")\<close> branches (nor any other panic) is ever taken.
\<close>

theorem DecodeWithdrawal_length_guard:
  "(length data \<noteq> 28 \<longrightarrow>
      DecodeWithdrawal v data = Inl (Error ''wrong withdrawal data length''))
   \<and> (length data = 28 \<longrightarrow> (\<exists>w. DecodeWithdrawal v data = Inr w))
   \<and> (\<forall>msg. DecodeWithdrawal v data \<noteq> Inl (Panic msg))"
proof (cases "length data = 28")
  case True
  then obtain w where "DecodeWithdrawal v data = Inr w"
    using DecodeWithdrawal_fields [of data v] by blast
  then show ?thesis using True by simp
next
  case False
  then show ?thesis by (simp add: DecodeWithdrawal_def)
qed

theorem DecodeWithdrawal_length_guard_witness:
  "DecodeWithdrawal 7 (replicate 27 0) = Inl (Error ''wrong withdrawal data length'')
   \<and> DecodeWithdrawal 7 [] = Inl (Error ''wrong withdrawal data length'')
   \<and> (\<exists>w. DecodeWithdrawal 7 (replicate 28 0) = Inr w)"
  using DecodeWithdrawal_length_guard [of "replicate 27 0" 7]
    DecodeWithdrawal_length_guard [of "[]" 7]
    DecodeWithdrawal_length_guard [of "replicate 28 0" 7]
  by simp

text \<open>
  Claim C4: for every value \<open>v\<close> and every 28-byte \<open>data\<close>, \<^verbatim>\<open>DecodeWithdrawal\<close> returns a
  withdrawal whose fee is the unsigned big-endian integer in bytes 0..8, whose address is
  bytes 8..28 and whose amount is \<open>v div 10^10\<close>.  Address and amount are as claimed
  (\<open>DecodeWithdrawal_fields\<close>), and so is the scenario with fee 1000
  (\<open>DecodeWithdrawal_scenario\<close>).  With eight fee bytes \<open>0xFF\<close>, which denote
  \<open>2^64 - 1\<close>, the code returns \<open>Fee = - 1\<close>.
\<close>

theorem DecodeWithdrawal_fee_top_bit:
  "DecodeWithdrawal (12345 * 10 ^ 10)
     ([0xFF, 0xFF, 0xFF, 0xFF, 0xFF, 0xFF, 0xFF, 0xFF] @ replicate 20 0x11)
     = Inr \<lparr>Address = replicate 20 0x11, Amount = 12345, Fee = - 1\<rparr>
   \<and> be_nat (take 8 ([0xFF, 0xFF, 0xFF, 0xFF, 0xFF, 0xFF, 0xFF, 0xFF] @ replicate 20 0x11))
     = 18446744073709551615"
proof -
  have "DecodeWithdrawal (12345 * 10 ^ 10)
     ([0xFF, 0xFF, 0xFF, 0xFF, 0xFF, 0xFF, 0xFF, 0xFF] @ replicate 20 0x11)
     = Inr \<lparr>Address = replicate 20 0x11, Amount = 12345, Fee = - 1\<rparr>"
    using DecodeWithdrawal_28
      [of "[0xFF, 0xFF, 0xFF, 0xFF, 0xFF, 0xFF, 0xFF, 0xFF] @ replicate 20 0x11"
        "0xFFFFFFFFFFFFFFFF" "12345 * 10 ^ 10"]
    by (simp add: BigEndian_Uint64_def)
  then show ?thesis by (simp add: be_nat_def)
qed

lemma DecodeWithdrawal_scenario:
  "DecodeWithdrawal (12345 * 10 ^ 10) ([0, 0, 0, 0, 0, 0, 0x03, 0xE8] @ replicate 20 0x11)
     = Inr \<lparr>Address = replicate 20 0x11, Amount = 12345, Fee = 1000\<rparr>"
  using DecodeWithdrawal_28 [of "[0, 0, 0, 0, 0, 0, 0x03, 0xE8] @ replicate 20 0x11" "1000"
      "12345 * 10 ^ 10"]
  by (simp add: BigEndian_Uint64_def)

text \<open>
  Claim C8: for every fee \<open>f\<close>, \<^verbatim>\<open>GetWithdrawalData\<close> returns exactly 28 bytes; the first
  8 are \<open>f\<close> as an unsigned big-endian integer, the remaining 20 are the bytes of the
  address the native library has just handed out; the function produces nothing else.
  The address array of the library's struct has 20 elements, which is the hypothesis on
  \<open>cAddress\<close>.
\<close>

theorem GetWithdrawalData_layout:
  assumes "get_new_mainchain_address conn = (cAddress, conn')" and "length cAddress = 20"
  shows "\<exists>data. GetWithdrawalData get_new_mainchain_address conn f = (Inr data, conn')
           \<and> length data = 28
           \<and> take 8 data = [ucast (drop_bit 56 f), ucast (drop_bit 48 f), ucast (drop_bit 40 f),
                             ucast (drop_bit 32 f), ucast (drop_bit 24 f), ucast (drop_bit 16 f),
                             ucast (drop_bit 8 f), ucast f]
           \<and> be_nat (take 8 data) = unat f
           \<and> drop 8 data = cAddress"
proof -
  let ?fb = "[ucast (drop_bit 56 f), ucast (drop_bit 48 f), ucast (drop_bit 40 f),
              ucast (drop_bit 32 f), ucast (drop_bit 24 f), ucast (drop_bit 16 f),
              ucast (drop_bit 8 f), ucast f] :: byte list"
  have "GetWithdrawalData get_new_mainchain_address conn f = (Inr (?fb @ cAddress), conn')"
    using GetWithdrawalData_20 [of get_new_mainchain_address conn cAddress conn' f ?fb]
      assms PutUint64_replicate [of f] by simp
  moreover have "be_nat ?fb = unat f" by (rule be_nat_bytes)
  ultimately show ?thesis using assms(2) by simp
qed

theorem GetWithdrawalData_layout_witness:
  "\<exists>data. GetWithdrawalData (\<lambda>c::unit. (replicate 20 0x11, c)) () 1000 = (Inr data, ())
      \<and> length data = 28 \<and> take 8 data = [0, 0, 0, 0, 0, 0, 0x03, 0xE8]
      \<and> be_nat (take 8 data) = 1000 \<and> drop 8 data = replicate 20 0x11"
proof -
  have b: "(1000 :: byte) = 0xE8"
    by simp
  show ?thesis
    using GetWithdrawalData_layout [of "\<lambda>c::unit. (replicate 20 0x11, c)" "()"
        "replicate 20 0x11" "()" 1000]
    by (simp add: b drop_bit_eq_div)
qed

text \<open>
  Claim C10: \<^verbatim>\<open>GetDepositOutputs\<close> returns one deposit for each raw deposit, and reads the
  unsigned 64-bit amount \<open>a\<close> of the raw deposit as a signed number: the deposit's amount is
  \<open>a\<close> when \<open>a < 2^63\<close>, and \<open>a - 2^64\<close>, a negative number, when \<open>a \<ge> 2^63\<close>.
\<close>

theorem GetDepositOutputs_amounts:
  "length (GetDepositOutputs HexToAddress cDeposits) = length (getDepositOutputs cDeposits)
   \<and> (\<forall>i < length (getDepositOutputs cDeposits).
         Deposit.Amount (GetDepositOutputs HexToAddress cDeposits ! i)
         = (if unat (RawDeposit.amount (getDepositOutputs cDeposits ! i)) < 2 ^ 63
            then int (unat (RawDeposit.amount (getDepositOutputs cDeposits ! i)))
            else int (unat (RawDeposit.amount (getDepositOutputs cDeposits ! i))) - 2 ^ 64)
       \<and> (2 ^ 63 \<le> unat (RawDeposit.amount (getDepositOutputs cDeposits ! i))
           \<longrightarrow> Deposit.Amount (GetDepositOutputs HexToAddress cDeposits ! i) < 0))"
proof -
  have neg: "uint a < 18446744073709551616" for a :: uint64
    using uint_lt2p [of a] by simp
  show ?thesis
    by (simp add: GetDepositOutputs_map getDepositOutputs_map sint_uint64 neg)
qed

theorem GetDepositOutputs_amounts_witness:
  "Deposit.Amount (GetDepositOutputs (\<lambda>s. [])
      [\<lparr>d_address = ''a'', d_amount = 5\<rparr>, \<lparr>d_address = ''b'', d_amount = 0x8000000000000001\<rparr>] ! 0) = 5
   \<and> Deposit.Amount (GetDepositOutputs (\<lambda>s. [])
      [\<lparr>d_address = ''a'', d_amount = 5\<rparr>, \<lparr>d_address = ''b'', d_amount = 0x8000000000000001\<rparr>] ! 1)
     = - 9223372036854775807"
  using GetDepositOutputs_amounts [of "\<lambda>s. []"
      "[\<lparr>d_address = ''a'', d_amount = 5\<rparr>, \<lparr>d_address = ''b'', d_amount = 0x8000000000000001\<rparr>]"]
  by (simp add: getDepositOutputs_map less_Suc_eq all_conj_distrib)


subsection \<open>Blocks of memory\<close>

lemma store_alloc: "store sz i x b = Inr b' \<Longrightarrow> alloc_bytes b' = alloc_bytes b"
  by (auto simp: store_def split: if_splits)

lemma fill_alloc: "alloc_bytes (fst (fill sz i xs b)) = alloc_bytes b"
proof (induction xs arbitrary: i b)
  case Nil
  then show ?case by simp
next
  case (Cons x xs)
  then show ?case
    by (cases "store sz i x b") (simp_all add: store_alloc)
qed

lemma fill_inside:
  "(i + length xs) * sz \<le> alloc_bytes b \<Longrightarrow> outside (fst (fill sz i xs b)) = outside b"
proof (induction xs arbitrary: i b)
  case Nil
  then show ?case by simp
next
  case (Cons x xs)
  have "(i + 1) * sz \<le> (i + length (x # xs)) * sz"
    by (intro mult_le_mono1) simp
  then have fits: "(i + 1) * sz \<le> alloc_bytes b" using Cons.prems(1) by (rule order_trans)
  show ?case
  proof (cases "array_len \<le> i")
    case True
    then show ?thesis by (simp add: store_def)
  next
    case False
    let ?b = "b\<lparr>stored := stored b @ [(i, x)]\<rparr>"
    have s: "store sz i x b = Inr ?b" using False fits by (simp add: store_def)
    have "outside (fst (fill sz (Suc i) xs ?b)) = outside ?b"
      using Cons.prems by (intro Cons.IH) simp
    then show ?thesis using s by simp
  qed
qed

lemma fill_outside_mono: "set (outside b) \<subseteq> set (outside (fst (fill sz i xs b)))"
proof (induction xs arbitrary: i b)
  case Nil
  then show ?case by simp
next
  case (Cons x xs)
  show ?case
  proof (cases "store sz i x b")
    case (Inl e)
    then show ?thesis by simp
  next
    case (Inr b')
    then have "set (outside b) \<subseteq> set (outside b')"
      by (auto simp: store_def split: if_splits)
    then show ?thesis using Inr Cons.IH [of b' "Suc i"] by auto
  qed
qed

lemma fill_hits_outside:
  "i \<le> n \<Longrightarrow> n < i + length xs \<Longrightarrow> n < array_len \<Longrightarrow> \<not> (n + 1) * sz \<le> alloc_bytes b \<Longrightarrow>
   (n, xs ! (n - i)) \<in> set (outside (fst (fill sz i xs b)))"
proof (induction xs arbitrary: i b)
  case Nil
  then show ?case by simp
next
  case (Cons x xs)
  have i: "\<not> array_len \<le> i" using Cons.prems by simp
  show ?case
  proof (cases "i = n")
    case True
    let ?b = "b\<lparr>outside := outside b @ [(i, x)]\<rparr>"
    have "store sz i x b = Inr ?b" using i True Cons.prems by (simp add: store_def)
    moreover have "(i, x) \<in> set (outside (fst (fill sz (Suc i) xs ?b)))"
      using fill_outside_mono [of ?b sz "Suc i" xs] by auto
    ultimately show ?thesis using True by simp
  next
    case False
    then have lt: "Suc i \<le> n" using Cons.prems by simp
    obtain b' where b': "store sz i x b = Inr b'" "alloc_bytes b' = alloc_bytes b"
      using i by (cases "(i + 1) * sz \<le> alloc_bytes b") (auto simp: store_def)
    have "(n, xs ! (n - Suc i)) \<in> set (outside (fst (fill sz (Suc i) xs b')))"
      using lt Cons.prems b'(2) by (intro Cons.IH) simp_all
    moreover have "(x # xs) ! (n - i) = xs ! (n - Suc i)"
      using lt by (simp add: nth_Cons')
    ultimately show ?thesis using b'(1) by simp
  qed
qed

lemma fill_count:
  "i + length xs \<le> array_len \<Longrightarrow>
   length (stored (fst (fill sz i xs b))) + length (outside (fst (fill sz i xs b)))
   = length (stored b) + length (outside b) + length xs"
proof (induction xs arbitrary: i b)
  case Nil
  then show ?case by simp
next
  case (Cons x xs)
  have i: "\<not> array_len \<le> i" using Cons.prems by simp
  obtain b' where b': "store sz i x b = Inr b'"
    "length (stored b') + length (outside b') = length (stored b) + length (outside b) + 1"
    using i by (cases "(i + 1) * sz \<le> alloc_bytes b") (auto simp: store_def)
  have "length (stored (fst (fill sz (Suc i) xs b'))) + length (outside (fst (fill sz (Suc i) xs b')))
        = length (stored b') + length (outside b') + length xs"
    using Cons.prems by (intro Cons.IH) simp
  then show ?case using b' by simp
qed

lemma malloc_size:
  "n * sz < 2 ^ 64 \<Longrightarrow> 0 < sz \<Longrightarrow>
   alloc_bytes (C_malloc (word_of_nat n * word_of_nat sz) :: 'a cbuf) = n * sz"
proof -
  assume a: "n * sz < 2 ^ 64" "0 < sz"
  have "(word_of_nat n * word_of_nat sz :: uint64) = word_of_nat (n * sz)" by simp
  then have "unat (word_of_nat n * word_of_nat sz :: uint64) = (n * sz) mod 2 ^ 64"
    by (simp only: unat_of_nat) simp
  then show ?thesis using a by (simp add: C_malloc_def)
qed

lemma fill_no_panic: "i + length xs \<le> array_len \<Longrightarrow> snd (fill sz i xs b) = None"
proof (induction xs arbitrary: i b)
  case Nil
  then show ?case by simp
next
  case (Cons x xs)
  have i: "\<not> array_len \<le> i" using Cons.prems by simp
  obtain b' where b': "store sz i x b = Inr b'"
    using i by (cases "(i + 1) * sz \<le> alloc_bytes b") (auto simp: store_def)
  have "snd (fill sz (Suc i) xs b') = None"
    using Cons.prems by (intro Cons.IH) simp
  then show ?case using b' by simp
qed

lemma fill_elements:
  "outside b = [] \<or> \<not> (i + 1) * sz \<le> alloc_bytes b \<Longrightarrow> i + length xs \<le> array_len \<Longrightarrow>
   elements (fst (fill sz i xs b)) = elements b @ xs"
proof (induction xs arbitrary: i b)
  case Nil
  then show ?case by simp
next
  case (Cons x xs)
  have i: "\<not> array_len \<le> i" using Cons.prems by simp
  show ?case
  proof (cases "(i + 1) * sz \<le> alloc_bytes b")
    case True
    let ?b = "b\<lparr>stored := stored b @ [(i, x)]\<rparr>"
    have o: "outside b = []" using True Cons.prems(1) by simp
    have s: "store sz i x b = Inr ?b" using i True by (simp add: store_def)
    have "elements (fst (fill sz (Suc i) xs ?b)) = elements ?b @ xs"
      using Cons.prems o by (intro Cons.IH) simp_all
    moreover have "elements ?b = elements b @ [x]" using o by (simp add: elements_def)
    ultimately show ?thesis using s by simp
  next
    case False
    let ?b = "b\<lparr>outside := outside b @ [(i, x)]\<rparr>"
    have s: "store sz i x b = Inr ?b" using i False by (simp add: store_def)
    have "(i + 1) * sz \<le> (Suc i + 1) * sz" by (intro mult_le_mono1) simp
    then have "\<not> (Suc i + 1) * sz \<le> alloc_bytes ?b" using False by simp
    then have "elements (fst (fill sz (Suc i) xs ?b)) = elements ?b @ xs"
      using Cons.prems by (intro Cons.IH) simp_all
    moreover have "elements ?b = elements b @ [x]" by (simp add: elements_def)
    ultimately show ?thesis using s by simp
  qed
qed

lemma fill_returns:
  assumes "length xs \<le> array_len"
  shows "\<exists>b. fill sz 0 xs (C_malloc n) = (b, None) \<and> elements b = xs"
proof -
  let ?m = "C_malloc n :: 'a cbuf"
  have "elements (fst (fill sz 0 xs ?m)) = elements ?m @ xs"
    using assms by (intro fill_elements) (simp_all add: C_malloc_def)
  moreover have "elements ?m = []" by (simp add: elements_def C_malloc_def)
  moreover have "snd (fill sz 0 xs ?m) = None"
    using assms by (intro fill_no_panic) simp
  ultimately show ?thesis by (cases "fill sz 0 xs ?m") auto
qed

text \<open>
  Unless a loop runs into the end of the array type, \<^verbatim>\<open>ConnectBlock\<close> returns what the
  native call returns for the marshalled batch, whether or not a store fell outside a block.
\<close>

lemma ConnectBlock_passes_batch:
  assumes "length deposits \<le> array_len" and "length withdrawals \<le> array_len"
    and "length refunds \<le> array_len"
  shows "ConnectBlock X connect_block conn deposits withdrawals refunds just_checking
         = Inr (connect_block conn (map (cDeposit_of X) deposits)
                  (map (cWithdrawal_of X) withdrawals) (map (cRefund_of X) refunds)
                  just_checking)"
proof -
  obtain d where d: "depositsBuffer X deposits = (d, None)"
    "elements d = map (cDeposit_of X) deposits"
    unfolding depositsBuffer_def
    using fill_returns [of "map (cDeposit_of X) deposits"] assms(1) by fastforce
  obtain w where w: "withdrawalsBuffer X withdrawals = (w, None)"
    "elements w = map (cWithdrawal_of X) withdrawals"
    unfolding withdrawalsBuffer_def
    using fill_returns [of "map (cWithdrawal_of X) withdrawals"] assms(2) by fastforce
  obtain r where r: "refundsBuffer X withdrawals refunds = (r, None)"
    "elements r = map (cRefund_of X) refunds"
    unfolding refundsBuffer_def
    using fill_returns [of "map (cRefund_of X) refunds"] assms(3) by fastforce
  show ?thesis
    by (simp add: ConnectBlock_def d w r)
qed

text \<open>
  Claim C6: in \<^verbatim>\<open>ConnectBlock\<close> the block for the refunds is requested from
  \<^verbatim>\<open>malloc\<close> with room for \<^verbatim>\<open>len(withdrawals)\<close> elements, and one element per refund
  is stored through it.  Whenever \<^verbatim>\<open>len(refunds) <= len(withdrawals)\<close>, every store lands
  inside the block; when there are more refunds than withdrawals, the refund with index
  \<^verbatim>\<open>len(withdrawals)\<close> is stored outside it.  The size of \<^verbatim>\<open>C.Refund\<close> is positive and
  the product requested from \<^verbatim>\<open>malloc\<close> fits the 64 bits of \<^verbatim>\<open>size_t\<close>.
\<close>

theorem refunds_buffer_bounds:
  assumes "0 < sizeof_Refund X" and "length withdrawals * sizeof_Refund X < 2 ^ 64"
  shows "alloc_bytes (fst (refundsBuffer X withdrawals refunds))
           = length withdrawals * sizeof_Refund X
       \<and> (length refunds \<le> array_len \<longrightarrow>
            length (stored (fst (refundsBuffer X withdrawals refunds)))
            + length (outside (fst (refundsBuffer X withdrawals refunds))) = length refunds)
       \<and> (length refunds \<le> length withdrawals \<longrightarrow>
            outside (fst (refundsBuffer X withdrawals refunds)) = [])
       \<and> (length withdrawals < length refunds \<and> length withdrawals < array_len \<longrightarrow>
            (length withdrawals, cRefund_of X (refunds ! length withdrawals))
            \<in> set (outside (fst (refundsBuffer X withdrawals refunds))))"
proof -
  let ?m = "C_malloc (word_of_nat (length withdrawals) * word_of_nat (sizeof_Refund X))
            :: C_Refund cbuf"
  let ?xs = "map (cRefund_of X) refunds"
  have a: "alloc_bytes ?m = length withdrawals * sizeof_Refund X"
    using assms(2,1) by (rule malloc_size)
  have e: "stored ?m = []" "outside ?m = []" by (simp_all add: C_malloc_def)
  have c1: "alloc_bytes (fst (refundsBuffer X withdrawals refunds))
            = length withdrawals * sizeof_Refund X"
    by (simp add: refundsBuffer_def fill_alloc a)
  have c2: "length (stored (fst (refundsBuffer X withdrawals refunds)))
            + length (outside (fst (refundsBuffer X withdrawals refunds))) = length refunds"
    if "length refunds \<le> array_len"
    using fill_count [of 0 ?xs "sizeof_Refund X" ?m] that e
    by (simp add: refundsBuffer_def)
  have c3: "outside (fst (refundsBuffer X withdrawals refunds)) = []"
    if "length refunds \<le> length withdrawals"
  proof -
    have "length refunds * sizeof_Refund X \<le> length withdrawals * sizeof_Refund X"
      using that by (rule mult_le_mono1)
    then have "(0 + length ?xs) * sizeof_Refund X \<le> alloc_bytes ?m" using a by simp
    then have "outside (fst (fill (sizeof_Refund X) 0 ?xs ?m)) = outside ?m"
      by (rule fill_inside)
    then show ?thesis using e by (simp add: refundsBuffer_def)
  qed
  have c4: "(length withdrawals, cRefund_of X (refunds ! length withdrawals))
            \<in> set (outside (fst (refundsBuffer X withdrawals refunds)))"
    if "length withdrawals < length refunds" "length withdrawals < array_len"
  proof -
    have "\<not> (length withdrawals + 1) * sizeof_Refund X \<le> alloc_bytes ?m"
      using a assms(1) by simp
    then have "(length withdrawals, ?xs ! (length withdrawals - 0))
               \<in> set (outside (fst (fill (sizeof_Refund X) 0 ?xs ?m)))"
      using that by (intro fill_hits_outside) simp_all
    then show ?thesis using that by (simp add: refundsBuffer_def)
  qed
  show ?thesis using c1 c2 c3 c4 by blast
qed

theorem refunds_buffer_bounds_witness:
  "(let X = \<lparr>sizeof_Deposit = 16, sizeof_Withdrawal = 48, sizeof_Refund = 8,
              Address_String = (\<lambda>a. ''0xaa''), Hash_Hex = (\<lambda>h::nat. ''0x07'')\<rparr>;
        w = \<lparr>Address = replicate 20 0x11, Amount = 12345, Fee = 1000\<rparr>
    in outside (fst (refundsBuffer X [(7, w)] [7])) = []
       \<and> alloc_bytes (fst (refundsBuffer X [] [7])) = 0
       \<and> outside (fst (refundsBuffer X [] [7])) = [(0, \<lparr>r_id = ''0x07''\<rparr>)])"
proof -
  let ?X = "\<lparr>sizeof_Deposit = 16, sizeof_Withdrawal = 48, sizeof_Refund = 8,
              Address_String = (\<lambda>a. ''0xaa''), Hash_Hex = (\<lambda>h::nat. ''0x07'')\<rparr>"
  let ?w = "\<lparr>Address = replicate 20 0x11, Amount = 12345, Fee = 1000\<rparr>"
  have a: "outside (fst (refundsBuffer ?X [(7, ?w)] [7])) = []"
    using refunds_buffer_bounds [of ?X "[(7, ?w)]" "[7]"] by simp
  have b: "alloc_bytes (fst (refundsBuffer ?X [] [7])) = 0"
    "(0, \<lparr>r_id = ''0x07''\<rparr>) \<in> set (outside (fst (refundsBuffer ?X [] [7])))"
    "length (stored (fst (refundsBuffer ?X [] [7])))
     + length (outside (fst (refundsBuffer ?X [] [7]))) = 1"
    using refunds_buffer_bounds [of ?X "[]" "[7]"]
    by (simp_all add: array_len_def cRefund_of_def)
  from b(2,3) have "outside (fst (refundsBuffer ?X [] [7])) = [(0, \<lparr>r_id = ''0x07''\<rparr>)]"
    by (cases "outside (fst (refundsBuffer ?X [] [7]))") auto
  then show ?thesis using a b(1) by (simp add: Let_def)
qed

subsection \<open>Verifying a commitment\<close>

text \<open>
  When both prints are at least two characters long, \<^verbatim>\<open>VerifyBmm\<close> hands the native call
  the two prints without their first two characters and returns its answer and its state.
\<close>

lemma VerifyBmm_passes_through:
  assumes "2 \<le> length (Hex h)" and "2 \<le> length (Hex c)"
  shows "VerifyBmm Hex verify_bmm conn h c
         = (Inr (fst (verify_bmm conn (drop 2 (Hex h)) (drop 2 (Hex c)))),
            snd (verify_bmm conn (drop 2 (Hex h)) (drop 2 (Hex c))))"
  using assms
  by (simp add: VerifyBmm_def str_from_def verifyBmm_def split: prod.splits)

subsection \<open>Start-up\<close>

lemma Init_fails_closed:
  assumes "Init HexToECDSA Public PubkeyToAddress Address_Hex c_init dbPath rpcUser rpcPassword
           = Inr c"
  shows "\<exists>privKey. HexToECDSA TREASURY_PRIVATE_KEY = Inr privKey
           \<and> strings_ToLower (Address_Hex (PubkeyToAddress (Public privKey))) = TREASURY_ACCOUNT"
  using assms by (auto simp: Init_def Let_def split: sum.splits if_splits)

lemma Init_mismatch_panics:
  assumes "HexToECDSA TREASURY_PRIVATE_KEY = Inr privKey"
    and "strings_ToLower (Address_Hex (PubkeyToAddress (Public privKey))) \<noteq> TREASURY_ACCOUNT"
  shows "\<exists>msg. Init HexToECDSA Public PubkeyToAddress Address_Hex c_init dbPath rpcUser rpcPassword
           = Inl (Panic msg)"
  using assms by (auto simp: Init_def Let_def)

end
